theory Spec2Isabelle
  imports Main
begin

section \<open>Strings as Python uses them\<close>

text \<open>
  File names are byte strings here; the letters the format tables look at are ASCII.
  \<open>py_lower\<close> is \<open>str.lower()\<close> on ASCII letters, \<open>split_last_dot\<close> is
  \<open>s.split('.')[-1]\<close>, \<open>dict_get\<close> is \<open>d.get(k, default)\<close> on a dict literal
  written as an association list.
\<close>

definition ascii_upper :: string where
  "ascii_upper = ''ABCDEFGHIJKLMNOPQRSTUVWXYZ''"

definition ascii_lower :: string where
  "ascii_lower = ''abcdefghijklmnopqrstuvwxyz''"

definition lower_char :: "char \<Rightarrow> char" where
  "lower_char c = (case map_of (zip ascii_upper ascii_lower) c of None \<Rightarrow> c | Some d \<Rightarrow> d)"

definition py_lower :: "string \<Rightarrow> string" where
  "py_lower s = map lower_char s"

definition split_last_dot :: "string \<Rightarrow> string" where
  "split_last_dot s = rev (takeWhile (\<lambda>c. c \<noteq> CHR ''.'') (rev s))"

definition dict_get :: "('k \<times> 'v) list \<Rightarrow> 'k \<Rightarrow> 'v \<Rightarrow> 'v" where
  "dict_get d k dflt = (case map_of d k of None \<Rightarrow> dflt | Some v \<Rightarrow> v)"

section \<open>Format classifier\<close>

text \<open>
  \<open>file_ext\<close> is the expression
  \<^verbatim>\<open>filename.split('.')[-1].lower() if '.' in filename else ''\<close>
  shared by \<open>ArchiveExtractor._detect_file_format\<close> and the inline classifier of
  \<open>extract_archive_safe\<close>.
\<close>

definition file_ext :: "string \<Rightarrow> string" where
  "file_ext filename =
     (if CHR ''.'' \<in> set filename then py_lower (split_last_dot filename) else [])"



text \<open>
  The table written inline in \<open>extract_archive_safe\<close> (app.py), which is the extractor
  the batch pipeline runs; \<open>format_name\<close> is the value of its variable of that name.
\<close>

definition format_map_inline :: "(string \<times> string) list" where
  "format_map_inline =
    [(''pdf'', ''pdf''), (''doc'', ''word''), (''docx'', ''word''),
     (''xls'', ''excel''), (''xlsx'', ''excel''), (''ppt'', ''ppt''), (''pptx'', ''ppt''),
     (''jpg'', ''image''), (''jpeg'', ''image''), (''png'', ''image''), (''gif'', ''image''),
     (''html'', ''html''), (''htm'', ''html''), (''txt'', ''text''),
     (''csv'', ''csv''), (''json'', ''json''), (''xml'', ''xml'')]"

definition format_name :: "string \<Rightarrow> string" where
  "format_name filename_only = dict_get format_map_inline (file_ext filename_only) ''unknown''"



section \<open>Paths and numerals of the Python library\<close>

text \<open>
  The extractor calls \<open>os.path.basename\<close>, \<open>os.path.splitext\<close>, \<open>os.path.join\<close>
  and formats a counter with an f-string. They are written here as POSIX Python computes
  them: \<open>basename\<close> is what follows the last \<open>/\<close>; \<open>splitext\<close> splits at the last
  dot of the base name unless only dots precede it; \<open>path_join\<close> is the two-argument
  \<open>join\<close>; \<open>py_str\<close> is the decimal \<open>str\<close> of a non-negative integer.
\<close>

definition basename :: "string \<Rightarrow> string" where
  "basename p = rev (takeWhile (\<lambda>c. c \<noteq> CHR ''/'') (rev p))"

definition splitext :: "string \<Rightarrow> string \<times> string" where
  "splitext p =
     (let b = basename p;
          d = take (length p - length b) p;
          stem = rev (drop 1 (dropWhile (\<lambda>c. c \<noteq> CHR ''.'') (rev b)));
          ext = CHR ''.'' # split_last_dot b
      in if CHR ''.'' \<in> set b \<and> (\<exists>c \<in> set stem. c \<noteq> CHR ''.'')
         then (d @ stem, ext) else (p, []))"

definition path_join :: "string \<Rightarrow> string \<Rightarrow> string" where
  "path_join a b =
     (if b \<noteq> [] \<and> hd b = CHR ''/'' then b
      else if a = [] \<or> last a = CHR ''/'' then a @ b
      else a @ ''/'' @ b)"

definition digit_chars :: string where
  "digit_chars = ''0123456789''"

fun py_str :: "nat \<Rightarrow> string" where
  "py_str n =
     (if n < 10 then [digit_chars ! n]
      else py_str (n div 10) @ [digit_chars ! (n mod 10)])"

declare py_str.simps [simp del]

text \<open>Python's truth value of a field that holds \<open>None\<close> or a string.\<close>

definition truthy :: "string option \<Rightarrow> bool" where
  "truthy v = (case v of None \<Rightarrow> False | Some s \<Rightarrow> s \<noteq> [])"

section \<open>Archive extraction (\<open>extract_archive_safe\<close>, app.py)\<close>

text \<open>
  \<open>zip_info\<close> is the part of \<open>zipfile.ZipInfo\<close> the extractor reads. \<open>is_dir\<close> is
  \<open>ZipInfo.is_dir()\<close>: the entry name ends with a slash. \<open>encrypted\<close> is bit 0 of
  \<open>flag_bits\<close>.
\<close>

record zip_info =
  zi_filename :: string
  zi_file_size :: nat
  zi_flag_bits :: nat

definition is_dir :: "zip_info \<Rightarrow> bool" where
  "is_dir file_info = (zi_filename file_info \<noteq> [] \<and> last (zi_filename file_info) = CHR ''/'')"

definition encrypted :: "zip_info \<Rightarrow> bool" where
  "encrypted file_info = odd (zi_flag_bits file_info)"

text \<open>
  One member record of the result (the dict \<open>file_info_dict\<close>), with the fields the
  conversion worker adds later. The time stamp \<open>extract_time\<close> is left out: nothing
  reads it. \<open>file_progress\<close> is the member's key \<open>conversion_progress\<close>.
\<close>

record file_rec =
  filename :: string
  original_path :: string
  extracted_path :: "string option"
  file_size :: nat
  format :: string
  error :: "string option"
  conversion_status :: "string option"
  file_progress :: "nat option"
  conversion_error :: "string option"
  md_file_path :: "string option"
  download_url :: "string option"
  file_converted_at :: "string option"

text \<open>
  What the two nested \<open>with\<close> blocks do for one entry: the entry was copied to the
  target; or an exception was raised before the target file was created (by
  \<open>zip_ref.open\<close> or by \<open>open(extract_path, 'wb')\<close>); or an exception was raised
  by the copy, after the target file was created. The string is \<open>str(e)\<close>.
\<close>

datatype copy_outcome = Copied | Open_failed string | Copy_failed string

text \<open>
  The world outside the extractor: \<open>mkdtemp\<close> is the result of
  \<open>tempfile.mkdtemp\<close>, \<open>infolist\<close> the result of opening the archive at a path and
  listing it, \<open>copy_entry\<close> the outcome of copying one entry under a password to a
  target name. \<open>Inl\<close> carries the message of the exception raised.
\<close>

record extract_env =
  mkdtemp :: "string + string"
  infolist :: "string \<Rightarrow> string + zip_info list"
  copy_entry :: "zip_info \<Rightarrow> string option \<Rightarrow> string \<Rightarrow> copy_outcome"

text \<open>
  \<open>zipfile.ZipFile.open\<close> raises \<open>RuntimeError\<close> for an entry whose encryption flag is
  set when it is given no password, before anything is read or written; the message is
  the library's, with the name quoted as \<open>repr\<close> quotes a plain name.
\<close>

definition encrypted_message :: "zip_info \<Rightarrow> string" where
  "encrypted_message file_info =
     ''File '' @ [CHR 0x27] @ zi_filename file_info @ [CHR 0x27]
       @ '' is encrypted, password required for extraction''"

definition zip_copy :: "extract_env \<Rightarrow> zip_info \<Rightarrow> string option \<Rightarrow> string \<Rightarrow> copy_outcome" where
  "zip_copy env file_info pwd target =
     (if encrypted file_info \<and> pwd = None then Open_failed (encrypted_message file_info)
      else copy_entry env file_info pwd target)"

text \<open>
  \<open>path_exists created name\<close> is \<open>os.path.exists(os.path.join(temp_dir, name))\<close>
  when \<open>created\<close> lists the files written so far into the fresh directory: the
  directory itself and its parent exist as well.
\<close>

definition path_exists :: "string list \<Rightarrow> string \<Rightarrow> bool" where
  "path_exists created name = (name \<in> set created \<or> name = [] \<or> name = ''.'' \<or> name = ''..'')"

text \<open>
  The renaming loop
  \<^verbatim>\<open>while os.path.exists(extract_path): filename_only = f"{base_name}_{counter}{ext}"; counter += 1\<close>.
  The value \<open>None\<close> stands for a loop that does not end.
\<close>

partial_function (option) unique_name ::
  "string list \<Rightarrow> string \<Rightarrow> string \<Rightarrow> nat \<Rightarrow> string \<Rightarrow> string option" where
  "unique_name created base_name ext counter filename_only =
     (if path_exists created filename_only
      then unique_name created base_name ext (counter + 1)
             (base_name @ ''_'' @ py_str counter @ ext)
      else Some filename_only)"

declare unique_name.simps [code]

text \<open>The password handed to \<open>zip_ref.open\<close>: \<open>password.encode() if password else None\<close>.\<close>

definition pwd_of :: "string option \<Rightarrow> string option" where
  "pwd_of password = (if truthy password then password else None)"

definition ok_record :: "zip_info \<Rightarrow> string \<Rightarrow> string \<Rightarrow> file_rec" where
  "ok_record file_info filename_only extract_path =
     \<lparr> filename = filename_only,
       original_path = zi_filename file_info,
       extracted_path = Some extract_path,
       file_size = zi_file_size file_info,
       format = format_name filename_only,
       error = None,
       conversion_status = None, file_progress = None, conversion_error = None,
       md_file_path = None, download_url = None, file_converted_at = None \<rparr>"

definition failed_record :: "zip_info \<Rightarrow> string \<Rightarrow> file_rec" where
  "failed_record file_info e =
     \<lparr> filename = zi_filename file_info,
       original_path = zi_filename file_info,
       extracted_path = None,
       file_size = zi_file_size file_info,
       format = ''unknown'',
       error = Some e,
       conversion_status = None, file_progress = None, conversion_error = None,
       md_file_path = None, download_url = None, file_converted_at = None \<rparr>"

text \<open>
  The body of the \<open>for\<close> loop for one entry that is no directory: the files created so
  far go in, and come out with the member record appended to the result.
\<close>

definition extract_entry ::
  "extract_env \<Rightarrow> string \<Rightarrow> string option \<Rightarrow> string list \<Rightarrow> zip_info
     \<Rightarrow> (string list \<times> file_rec) option" where
  "extract_entry env temp_dir password created file_info =
     (let fname = zi_filename file_info;
          filename_only0 = basename fname;
          (base_name, ext) = splitext filename_only0
      in case unique_name created base_name ext 1 filename_only0 of
           None \<Rightarrow> None
         | Some filename_only \<Rightarrow>
             (let extract_path = path_join temp_dir filename_only
              in case zip_copy env file_info (pwd_of password) filename_only of
                   Copied \<Rightarrow>
                     Some (created @ [filename_only],
                           ok_record file_info filename_only extract_path)
                 | Open_failed e \<Rightarrow> Some (created, failed_record file_info e)
                 | Copy_failed e \<Rightarrow>
                     Some (created @ [filename_only], failed_record file_info e)))"

fun extract_entries ::
  "extract_env \<Rightarrow> string \<Rightarrow> string option \<Rightarrow> zip_info list \<Rightarrow> string list
     \<Rightarrow> file_rec list \<Rightarrow> (string list \<times> file_rec list) option" where
  "extract_entries env temp_dir password [] created extracted_files =
     Some (created, extracted_files)"
| "extract_entries env temp_dir password (file_info # rest) created extracted_files =
     (if is_dir file_info
      then extract_entries env temp_dir password rest created extracted_files
      else case extract_entry env temp_dir password created file_info of
             None \<Rightarrow> None
           | Some (created', r) \<Rightarrow>
               extract_entries env temp_dir password rest created' (extracted_files @ [r]))"

text \<open>The dict \<open>extract_archive_safe\<close> returns: with \<open>success\<close> true or false.\<close>

datatype extract_result =
    Extract_ok (r_total_files: nat) (r_extracted_files: nat) (r_failed_files: nat)
               (r_files: "file_rec list") (r_temp_dir: string)
  | Extract_error (r_error: string)

definition success :: "extract_result \<Rightarrow> bool" where
  "success r = (case r of Extract_ok _ _ _ _ _ \<Rightarrow> True | Extract_error _ \<Rightarrow> False)"

definition extract_archive_safe ::
  "extract_env \<Rightarrow> string \<Rightarrow> string option \<Rightarrow> extract_result option" where
  "extract_archive_safe env archive_path password =
     (case mkdtemp env of
        Inl e \<Rightarrow> Some (Extract_error e)
      | Inr temp_dir \<Rightarrow>
          (case infolist env archive_path of
             Inl e \<Rightarrow> Some (Extract_error e)
           | Inr file_list \<Rightarrow>
               (let total_files = length (filter (\<lambda>f. \<not> is_dir f) file_list)
                in case extract_entries env temp_dir password file_list [] [] of
                     None \<Rightarrow> None
                   | Some (created, extracted_files) \<Rightarrow>
                       Some (Extract_ok total_files
                               (length (filter (\<lambda>f. \<not> truthy (error f)) extracted_files))
                               (length (filter (\<lambda>f. truthy (error f)) extracted_files))
                               extracted_files temp_dir))))"

section \<open>Auxiliary notions for the extractor\<close>

text \<open>
  \<open>py_int\<close> reads a decimal numeral back (Python's \<open>int\<close> on a string of digits).
  \<open>suffixed p k\<close> is the name \<^verbatim>\<open>f"{base_name}_{k}{ext}"\<close> the renaming loop forms for
  the entry path \<open>p\<close>. \<open>written r\<close> says that the member record \<open>r\<close> is one of a
  copied entry.
\<close>

definition digit_val :: "char \<Rightarrow> nat" where
  "digit_val c =
     (case map_of (zip digit_chars [0, 1, 2, 3, 4, 5, 6, 7, 8, 9]) c of
        None \<Rightarrow> 0 | Some d \<Rightarrow> d)"

definition py_int :: "string \<Rightarrow> nat" where
  "py_int s = foldl (\<lambda>a c. 10 * a + digit_val c) 0 s"

definition suffixed :: "string \<Rightarrow> nat \<Rightarrow> string" where
  "suffixed p k =
     (let (base_name, ext) = splitext (basename p)
      in base_name @ ''_'' @ py_str k @ ext)"

definition written :: "file_rec \<Rightarrow> bool" where
  "written r = (error r = None)"

text \<open>
  What holds of the member records built so far and the files created so far, at every
  turn of the extraction loop.
\<close>

definition members_inv :: "string \<Rightarrow> string list \<Rightarrow> file_rec list \<Rightarrow> bool" where
  "members_inv temp_dir created acc =
     ((\<forall>r \<in> set acc. written r \<longrightarrow>
          filename r \<in> set created
        \<and> extracted_path r = Some (path_join temp_dir (filename r))
        \<and> CHR ''/'' \<notin> set (filename r)
        \<and> path_exists created (basename (original_path r)))
      \<and> (\<forall>j < length acc. \<forall>i < j. written (acc ! i) \<longrightarrow> written (acc ! j) \<longrightarrow>
            filename (acc ! i) \<noteq> filename (acc ! j)
          \<and> (basename (original_path (acc ! i)) = basename (original_path (acc ! j)) \<longrightarrow>
               (\<exists>k\<ge>1. filename (acc ! j) = suffixed (original_path (acc ! j)) k))))"

text \<open>
  \<open>member_of env temp_dir pw fi r\<close>: the member record \<open>r\<close> is the one the loop body
  builds for the entry \<open>fi\<close> under some target name.
\<close>

definition member_of ::
  "extract_env \<Rightarrow> string \<Rightarrow> string option \<Rightarrow> zip_info \<Rightarrow> file_rec \<Rightarrow> bool" where
  "member_of env temp_dir pw fi r =
     (\<exists>name. r = (case zip_copy env fi (pwd_of pw) name of
                     Copied \<Rightarrow> ok_record fi name (path_join temp_dir name)
                   | Open_failed e \<Rightarrow> failed_record fi e
                   | Copy_failed e \<Rightarrow> failed_record fi e))"

section \<open>Batch registry, upload and extraction handlers (app.py)\<close>

text \<open>
  \<open>progress\<close> is the dict under the key \<open>conversion_progress\<close> of a batch; its
  counters are Python integers. \<open>batch_status\<close> is the dict \<open>upload_batch\<close> creates;
  the keys added later (\<open>temp_dir\<close>, \<open>error\<close>, \<open>conversion_progress\<close>) are
  optional. \<open>batch_error\<close> is the batch's key \<open>error\<close>.
\<close>

record progress =
  total :: int
  completed :: int
  failed :: int
  processing :: int

record batch_status =
  batch_id :: string
  archive_name :: string
  archive_path :: string
  password :: string
  status :: string
  total_files :: nat
  extracted_files :: nat
  failed_files :: nat
  files :: "file_rec list"
  extracted_at :: "string option"
  converted_at :: "string option"
  created_at :: string
  temp_dir :: "string option"
  batch_error :: "string option"
  conversion_progress :: "progress option"

text \<open>The global dict \<open>batch_conversion_status\<close>, keyed by batch id.\<close>

type_synonym registry = "string \<rightharpoonup> batch_status"




text \<open>The message of \<open>raise Exception(...)\<close> in \<open>extract_batch\<close>, in UTF-8.\<close>

definition extract_failed_message :: string where
  "extract_failed_message = [CHR 0xE8, CHR 0xA7, CHR 0xA3, CHR 0xE5, CHR 0x8E, CHR 0x8B, CHR 0xE5, CHR 0xA4, CHR 0xB1, CHR 0xE8, CHR 0xB4, CHR 0xA5]"

text \<open>The argument \<^verbatim>\<open>batch_status['password'] or None\<close>.\<close>

definition password_or_none :: "string \<Rightarrow> string option" where
  "password_or_none pw = (if pw = [] then None else Some pw)"

text \<open>
  \<open>extract_batch\<close>: HTTP status and registry; \<open>None\<close> when the extractor does not
  return.
\<close>

definition extract_batch ::
  "extract_env \<Rightarrow> string \<Rightarrow> registry \<Rightarrow> string \<Rightarrow> (nat \<times> registry) option" where
  "extract_batch env now reg bid =
     (case reg bid of
        None \<Rightarrow> Some (404, reg)
      | Some b \<Rightarrow>
          if status b \<noteq> ''uploaded'' then Some (400, reg)
          else
            (let b1 = b\<lparr>status := ''extracting''\<rparr>;
                 reg1 = reg(bid \<mapsto> b1)
             in case extract_archive_safe env (archive_path b1) (password_or_none (password b1)) of
                  None \<Rightarrow> None
                | Some (Extract_ok t x f fs td) \<Rightarrow>
                    Some (200,
                      reg1(bid \<mapsto> b1\<lparr> status := ''extracted'',
                                       total_files := t,
                                       extracted_files := x,
                                       failed_files := f,
                                       files := fs,
                                       temp_dir := Some td,
                                       extracted_at := Some now \<rparr>))
                | Some (Extract_error e) \<Rightarrow>
                    Some (500,
                      reg1(bid \<mapsto> b1\<lparr> status := ''extract_failed'',
                                       batch_error := Some extract_failed_message \<rparr>))))"

section \<open>History recorder (app.py)\<close>

text \<open>
  One record of the history log. The file \<open>history.json\<close> is \<open>None\<close> when it is
  missing or cannot be parsed, and then \<open>load_history\<close> gives the empty list.
  \<open>save_history\<close> catches the exception of a failed write: the file is as it was
  when it could not be opened for writing, and cannot be parsed when the write stopped
  part-way. The outcome of the write comes from outside, as do the fresh id
  (\<open>uuid.uuid4().hex\<close>) and the clock reading.
\<close>

datatype write_outcome = Written | Not_opened | Cut_short

record history_record =
  h_id :: string
  h_original_name :: string
  h_format :: string
  h_file_size :: nat
  h_md_file_path :: string
  h_download_url :: string
  h_converted_at :: string
  h_status :: string

type_synonym history_file = "history_record list option"

definition load_history :: "history_file \<Rightarrow> history_record list" where
  "load_history file = (case file of None \<Rightarrow> [] | Some history \<Rightarrow> history)"

definition save_history ::
  "write_outcome \<Rightarrow> history_record list \<Rightarrow> history_file \<Rightarrow> history_file" where
  "save_history outcome history file =
     (case outcome of Written \<Rightarrow> Some history | Not_opened \<Rightarrow> file | Cut_short \<Rightarrow> None)"

definition add_to_history ::
  "string \<Rightarrow> string \<Rightarrow> write_outcome \<Rightarrow> string \<Rightarrow> string \<Rightarrow> nat \<Rightarrow> string \<Rightarrow> string
     \<Rightarrow> history_file \<Rightarrow> history_record \<times> history_file" where
  "add_to_history new_id now outcome original_name file_format fsize md_path url file =
     (let history = load_history file;
          record = \<lparr> h_id = new_id,
                     h_original_name = original_name,
                     h_format = file_format,
                     h_file_size = fsize,
                     h_md_file_path = md_path,
                     h_download_url = url,
                     h_converted_at = now,
                     h_status = ''completed'' \<rparr>;
          history = record # history;
          history = (if length history > 100 then take 100 history else history)
      in (record, save_history outcome history file))"

definition clear_history :: "write_outcome \<Rightarrow> history_file \<Rightarrow> nat \<times> history_file" where
  "clear_history outcome file = (200, save_history outcome [] file)"

definition delete_history_item :: "write_outcome \<Rightarrow> string \<Rightarrow> history_file \<Rightarrow> nat \<times> history_file" where
  "delete_history_item outcome history_id file =
     (let history = load_history file;
          new_history = filter (\<lambda>item. h_id item \<noteq> history_id) history
      in if length history = length new_history then (404, file)
         else (200, save_history outcome new_history file))"

text \<open>A record and a full log used to instantiate the theorems.\<close>

definition old_record :: history_record where
  "old_record = \<lparr> h_id = ''id0'', h_original_name = ''old.pdf'', h_format = ''pdf'',
                   h_file_size = 1, h_md_file_path = ''downloads/old.md'',
                   h_download_url = ''/download-md?file_path=downloads/old.md'',
                   h_converted_at = ''t0'', h_status = ''completed'' \<rparr>"

definition full_history :: history_file where
  "full_history = Some (replicate 100 old_record)"

section \<open>Converter dispatch (\<open>convert_file_content\<close> and \<open>convert_format\<close>, app.py)\<close>
















section \<open>Batch conversion: trigger and worker (app.py)\<close>






text \<open>
  What the worker changes: \<open>batch\<close> is the batch's dict, which is the object stored in
  the registry (\<open>get_batch_status\<close> returns it, not a copy); \<open>history_file\<close> is
  \<open>history.json\<close>; \<open>saved\<close> lists the states of the batch at the calls of
  \<open>save_batch_status\<close>, oldest first; \<open>dispatched\<close> lists the calls of
  \<open>convert_file_content\<close> made so far, with their arguments.
\<close>

record world =
  batch :: batch_status
  history_file :: history_file
  saved :: "batch_status list"
  dispatched :: "(string option \<times> string) list"

definition save_batch_status :: "world \<Rightarrow> world" where
  "save_batch_status w = w\<lparr>saved := saved w @ [batch w]\<rparr>"


definition upd_file :: "nat \<Rightarrow> (file_rec \<Rightarrow> file_rec) \<Rightarrow> world \<Rightarrow> world" where
  "upd_file g change w =
     w\<lparr>batch := (batch w)\<lparr>files := (files (batch w))[g := change (files (batch w) ! g)]\<rparr>\<rparr>"
















section \<open>Auxiliary notions for the worker\<close>

text \<open>
  \<open>names w\<close> are the member names of the batch, which the worker never changes.
  \<open>step_trace p w w'\<close> relates the state \<open>w\<close> before one turn of the loop, where the
  progress counters are \<open>p\<close>, to a state \<open>w'\<close> reached in that turn: status and names
  are kept, every state saved in between shows the counters \<open>p\<close>, or \<open>p\<close> with one
  file in processing, or the counters of \<open>w'\<close>, and every new call of the dispatch has a
  supported tag. \<open>snap_bound p n s\<close> bounds the counters of a saved state \<open>s\<close> from the
  counters \<open>p\<close> at the start of a run over \<open>n\<close> files.
\<close>

definition names :: "world \<Rightarrow> string list" where
  "names w = map filename (files (batch w))"



definition set_progress :: "progress \<Rightarrow> world \<Rightarrow> world" where
  "set_progress q w = w\<lparr>batch := (batch w)\<lparr>conversion_progress := Some q\<rparr>\<rparr>"

text \<open>
  \<open>selected_files b data_files\<close> is the list the trigger hands to the worker.
  \<open>counters_sum s\<close> and \<open>counters_total s\<close> read a state of the batch as a status
  request does: the sum \<open>completed + failed + processing\<close> and \<open>total\<close>.
\<close>

definition selected_files :: "batch_status \<Rightarrow> file_rec list \<Rightarrow> file_rec list" where
  "selected_files b data_files =
     (if data_files = []
      then filter (\<lambda>f. truthy (extracted_path f) \<and> \<not> truthy (error f)) (files b)
      else data_files)"



text \<open>The batch as the trigger leaves it.\<close>

definition triggered :: "string \<Rightarrow> batch_status \<Rightarrow> file_rec list \<Rightarrow> batch_status" where
  "triggered now b data_files =
     b\<lparr> status := ''converting'', converted_at := Some now,
        conversion_progress :=
          Some \<lparr> total = int (length (selected_files b data_files)), completed = 0,
                 failed = 0, processing = 0 \<rparr> \<rparr>"

section \<open>Concrete archives used to instantiate the theorems\<close>

text \<open>
  \<open>docs_entries\<close> is the archive of the specification's scenario: \<open>a.pdf\<close> twice and
  \<open>b.txt\<close>, here below a directory entry. \<open>locked_entries\<close> has one entry with the
  encryption flag set. In both environments every copy succeeds.
\<close>

definition docs_entries :: "zip_info list" where
  "docs_entries =
     [\<lparr>zi_filename = ''docs/'', zi_file_size = 0, zi_flag_bits = 0\<rparr>,
      \<lparr>zi_filename = ''docs/a.pdf'', zi_file_size = 3, zi_flag_bits = 0\<rparr>,
      \<lparr>zi_filename = ''a.pdf'', zi_file_size = 4, zi_flag_bits = 0\<rparr>,
      \<lparr>zi_filename = ''b.txt'', zi_file_size = 5, zi_flag_bits = 0\<rparr>]"

definition docs_env :: extract_env where
  "docs_env =
     \<lparr> mkdtemp = Inr ''/tmp/archive_extract_1'',
       infolist = (\<lambda>p. Inr docs_entries),
       copy_entry = (\<lambda>fi pwd target. Copied) \<rparr>"

definition locked_entries :: "zip_info list" where
  "locked_entries =
     [\<lparr>zi_filename = ''secret.pdf'', zi_file_size = 7, zi_flag_bits = 1\<rparr>,
      \<lparr>zi_filename = ''open.pdf'', zi_file_size = 9, zi_flag_bits = 0\<rparr>]"

definition locked_env :: extract_env where
  "locked_env =
     \<lparr> mkdtemp = Inr ''/tmp/archive_extract_2'',
       infolist = (\<lambda>p. Inr locked_entries),
       copy_entry = (\<lambda>fi pwd target. Copied) \<rparr>"

definition locked_batch :: batch_status where
  "locked_batch =
     \<lparr> batch_id = ''b1'', archive_name = ''locked.zip'',
       archive_path = ''uploads/batch_b1_locked.zip'', password = [],
       status = ''uploaded'', total_files = 0, extracted_files = 0, failed_files = 0,
       files = [], extracted_at = None, converted_at = None, created_at = ''t0'',
       temp_dir = None, batch_error = None, conversion_progress = None \<rparr>"


section \<open>A concrete batch used to instantiate the theorems about the worker\<close>





section \<open>Properties of the classifier\<close>
















section \<open>Properties of the extractor\<close>

lemma digit_val_digit: "d < 10 \<Longrightarrow> digit_val (digit_chars ! d) = d"
proof -
  assume "d < 10"
  then have "d = 0 \<or> d = 1 \<or> d = 2 \<or> d = 3 \<or> d = 4 \<or> d = 5 \<or> d = 6
    \<or> d = 7 \<or> d = 8 \<or> d = 9"
    by arith
  then show ?thesis
    by (elim disjE) (simp_all add: digit_val_def digit_chars_def)
qed

lemma py_int_snoc: "py_int (s @ [c]) = 10 * py_int s + digit_val c"
  by (simp add: py_int_def)

lemma py_int_py_str: "py_int (py_str n) = n"
proof (induction n rule: py_str.induct)
  case (1 n)
  show ?case
  proof (cases "n < 10")
    case True
    then show ?thesis
      using py_int_snoc [of "[]" "digit_chars ! n"]
      by (simp add: py_str.simps [of n] digit_val_digit py_int_def)
  next
    case False
    then have "py_int (py_str (n div 10)) = n div 10"
      using 1 by simp
    with False show ?thesis
      by (simp add: py_str.simps [of n] py_int_snoc digit_val_digit)
  qed
qed

lemma py_str_inj: "py_str m = py_str n \<Longrightarrow> m = n"
  by (metis py_int_py_str)

lemma digit_char_in: "d < 10 \<Longrightarrow> digit_chars ! d \<in> set digit_chars"
  by (rule nth_mem) (simp add: digit_chars_def)

lemma py_str_chars: "set (py_str n) \<subseteq> set digit_chars"
proof (induction n rule: py_str.induct)
  case (1 n)
  show ?case
  proof (cases "n < 10")
    case True
    then show ?thesis
      using digit_char_in [of n] by (simp add: py_str.simps [of n])
  next
    case False
    then have "set (py_str (n div 10)) \<subseteq> set digit_chars"
      using 1 by simp
    moreover have "digit_chars ! (n mod 10) \<in> set digit_chars"
      by (rule digit_char_in) simp
    ultimately show ?thesis
      using False by (simp add: py_str.simps [of n])
  qed
qed

lemma py_str_no_slash: "CHR ''/'' \<notin> set (py_str n)"
  using py_str_chars [of n] by (auto simp: digit_chars_def)

lemma cand_inj: "inj (\<lambda>k. b @ ''_'' @ py_str k @ e)"
  by (rule injI) (simp add: py_str_inj)

lemma underscore_not_special:
  "CHR ''_'' \<in> set s \<Longrightarrow> \<not> path_exists [] s"
  by (auto simp: path_exists_def)

lemma cand_not_special:
  "\<not> path_exists [] (b @ ''_'' @ py_str k @ e)"
  by (rule underscore_not_special) simp

lemma path_exists_iff:
  "path_exists created name \<longleftrightarrow> name \<in> set created \<or> path_exists [] name"
  by (simp add: path_exists_def)

lemma cand_bound: "\<exists>B. \<forall>k\<ge>B. b @ ''_'' @ py_str k @ e \<notin> set created"
proof -
  define cand where "cand = (\<lambda>k. b @ ''_'' @ py_str k @ e)"
  have "inj cand"
    unfolding cand_def by (rule cand_inj)
  then have "finite (cand -` set created)"
    by (rule finite_vimageI [OF finite_set])
  then obtain B where B: "\<forall>k \<in> cand -` set created. k < B"
    using finite_nat_set_iff_bounded [of "cand -` set created"] by blast
  have "\<forall>k\<ge>B. cand k \<notin> set created"
  proof (intro allI impI notI)
    fix k assume "B \<le> k" "cand k \<in> set created"
    then have "k \<in> cand -` set created" by simp
    with B have "k < B" by blast
    with \<open>B \<le> k\<close> show False by simp
  qed
  then show ?thesis unfolding cand_def ..
qed

lemma unique_name_free:
  "\<not> path_exists created n \<Longrightarrow> unique_name created b e c n = Some n"
  by (simp add: unique_name.simps [of created b e c n])

lemma unique_name_step:
  "path_exists created n \<Longrightarrow>
   unique_name created b e c n = unique_name created b e (c + 1) (b @ ''_'' @ py_str c @ e)"
  by (simp add: unique_name.simps [of created b e c n])

lemma unique_name_bounded:
  assumes "\<forall>k\<ge>B. b @ ''_'' @ py_str k @ e \<notin> set created"
  shows "\<exists>r. unique_name created b e c n = Some r \<and> \<not> path_exists created r
           \<and> (r = n \<or> (\<exists>k\<ge>c. r = b @ ''_'' @ py_str k @ e))"
proof -
  define cand where "cand = (\<lambda>k. b @ ''_'' @ py_str k @ e)"
  have far: "\<not> path_exists created (cand k)" if "B \<le> k" for k
  proof -
    have "cand k \<notin> set created"
      using assms that unfolding cand_def by blast
    moreover have "\<not> path_exists [] (cand k)"
      unfolding cand_def by (rule cand_not_special)
    ultimately show ?thesis
      using path_exists_iff [of created "cand k"] by blast
  qed
  have free: "\<And>c n. \<not> path_exists created n \<Longrightarrow> unique_name created b e c n = Some n"
    by (rule unique_name_free)
  have step: "\<And>c n. path_exists created n \<Longrightarrow>
      unique_name created b e c n = unique_name created b e (Suc c) (cand c)"
    unfolding cand_def Suc_eq_plus1 by (rule unique_name_step)
  have "\<exists>r. unique_name created b e c n = Some r \<and> \<not> path_exists created r
           \<and> (r = n \<or> (\<exists>k\<ge>c. r = cand k))"
  proof (induction "B - c" arbitrary: c n)
    case 0
    then have "B \<le> c" by simp
    show ?case
    proof (cases "path_exists created n")
      case False
      then show ?thesis by (simp add: free)
    next
      case True
      have "unique_name created b e c n = unique_name created b e (Suc c) (cand c)"
        by (rule step [OF True])
      also have "\<dots> = Some (cand c)"
        by (rule free [OF far [OF \<open>B \<le> c\<close>]])
      finally have eq: "unique_name created b e c n = Some (cand c)" .
      show ?thesis
      proof (intro exI conjI)
        show "unique_name created b e c n = Some (cand c)" by (rule eq)
        show "\<not> path_exists created (cand c)" by (rule far [OF \<open>B \<le> c\<close>])
        have "c \<le> c \<and> cand c = cand c" by simp
        then show "cand c = n \<or> (\<exists>k\<ge>c. cand c = cand k)" by (intro disjI2 exI)
      qed
    qed
  next
    case (Suc d)
    show ?case
    proof (cases "path_exists created n")
      case False
      then show ?thesis by (simp add: free)
    next
      case True
      have "d = B - Suc c" using Suc.hyps(2) by simp
      from Suc.hyps(1) [OF this, of "cand c"]
      obtain r where r: "unique_name created b e (Suc c) (cand c) = Some r"
        "\<not> path_exists created r"
        "r = cand c \<or> (\<exists>k\<ge>Suc c. r = cand k)"
        by (elim exE conjE)
      from r(3) have later: "\<exists>k\<ge>c. r = cand k"
      proof
        assume "r = cand c"
        then have "c \<le> c \<and> r = cand c" by simp
        then show ?thesis by (rule exI)
      next
        assume "\<exists>k\<ge>Suc c. r = cand k"
        then obtain k where "Suc c \<le> k" "r = cand k" by (elim exE conjE)
        then have "c \<le> k \<and> r = cand k" by simp
        then show ?thesis by (rule exI)
      qed
      have eq: "unique_name created b e c n = Some r"
        using step [OF True] r(1) by (rule trans)
      show ?thesis
      proof (intro exI conjI)
        show "unique_name created b e c n = Some r" by (rule eq)
        show "\<not> path_exists created r" by (rule r(2))
        show "r = n \<or> (\<exists>k\<ge>c. r = cand k)" using later by (rule disjI2)
      qed
    qed
  qed
  then show ?thesis by (simp add: cand_def)
qed

lemma unique_name_returns:
  "\<exists>r. unique_name created b e c n = Some r \<and> \<not> path_exists created r
       \<and> (r = n \<or> (\<exists>k\<ge>c. r = b @ ''_'' @ py_str k @ e))"
proof -
  from cand_bound [of b e created]
  obtain B where B: "\<forall>k\<ge>B. b @ ''_'' @ py_str k @ e \<notin> set created" ..
  show ?thesis by (rule unique_name_bounded [OF B])
qed

lemma basename_no_slash: "CHR ''/'' \<notin> set (basename p)"
  unfolding basename_def using set_takeWhileD [of "CHR ''/''" "\<lambda>c. c \<noteq> CHR ''/''" "rev p"]
  by auto

lemma basename_idem: "CHR ''/'' \<notin> set b \<Longrightarrow> basename b = b"
proof -
  assume "CHR ''/'' \<notin> set b"
  then have tw: "takeWhile (\<lambda>c. c \<noteq> CHR ''/'') (rev b) = rev b"
    by (intro takeWhile_eq_all_conv [THEN iffD2]) auto
  show ?thesis unfolding basename_def tw by (rule rev_rev_ident)
qed

lemma splitext_chars:
  assumes "CHR ''/'' \<notin> set b"
  shows "CHR ''/'' \<notin> set (fst (splitext b))" and "CHR ''/'' \<notin> set (snd (splitext b))"
proof -
  have stem: "set (rev (drop 1 (dropWhile (\<lambda>c. c \<noteq> CHR ''.'') (rev b)))) \<subseteq> set b"
    using set_drop_subset [of 1 "dropWhile (\<lambda>c. c \<noteq> CHR ''.'') (rev b)"]
      set_dropWhileD [of _ "\<lambda>c. c \<noteq> CHR ''.''" "rev b"]
    by auto
  have ext: "set (split_last_dot b) \<subseteq> set b"
    unfolding split_last_dot_def using set_takeWhileD [of _ "\<lambda>c. c \<noteq> CHR ''.''" "rev b"]
    by auto
  show "CHR ''/'' \<notin> set (fst (splitext b))"
    using assms stem by (auto simp: splitext_def Let_def basename_idem)
  show "CHR ''/'' \<notin> set (snd (splitext b))"
    using assms ext by (auto simp: splitext_def Let_def basename_idem)
qed

lemma suffixed_alt:
  "suffixed p k =
     fst (splitext (basename p)) @ ''_'' @ py_str k @ snd (splitext (basename p))"
  by (simp add: suffixed_def split_beta)

lemma suffixed_no_slash: "CHR ''/'' \<notin> set (suffixed p k)"
  using splitext_chars [OF basename_no_slash [of p]] py_str_no_slash [of k]
  by (simp add: suffixed_alt)

lemma unique_name_entry:
  "\<exists>name. unique_name created (fst (splitext (basename p))) (snd (splitext (basename p)))
              1 (basename p) = Some name
     \<and> \<not> path_exists created name
     \<and> (name = basename p \<or> (path_exists created (basename p) \<and> (\<exists>k\<ge>1. name = suffixed p k)))
     \<and> CHR ''/'' \<notin> set name"
proof -
  define b where "b = fst (splitext (basename p))"
  define e where "e = snd (splitext (basename p))"
  define n where "n = basename p"
  have suff: "suffixed p k = b @ ''_'' @ py_str k @ e" for k
    by (simp add: suffixed_alt b_def e_def)
  from unique_name_returns [of created b e 1 n]
  obtain name where name: "unique_name created b e 1 n = Some name"
    "\<not> path_exists created name"
    "name = n \<or> (\<exists>k\<ge>1. name = suffixed p k)"
    unfolding suff by (elim exE conjE)
  have third: "name = n \<or> (path_exists created n \<and> (\<exists>k\<ge>1. name = suffixed p k))"
  proof (cases "path_exists created n")
    case True
    with name(3) show ?thesis by simp
  next
    case False
    then have "unique_name created b e 1 n = Some n"
      by (rule unique_name_free)
    with name(1) show ?thesis by simp
  qed
  have slash: "CHR ''/'' \<notin> set name"
    using name(3) basename_no_slash [of p] suffixed_no_slash [of p]
    unfolding n_def by (elim disjE exE conjE) simp_all
  show ?thesis
    using name(1,2) third slash unfolding b_def e_def n_def by (intro exI conjI)
qed

lemma path_exists_mono:
  "path_exists created n \<Longrightarrow> set created \<subseteq> set created' \<Longrightarrow> path_exists created' n"
  using path_exists_iff [of created n] path_exists_iff [of created' n] by blast

lemma path_exists_member: "n \<in> set created \<Longrightarrow> path_exists created n"
  using path_exists_iff [of created n] by blast

lemma written_ok_record [simp]: "written (ok_record fi name path)"
  by (simp add: written_def ok_record_def)

lemma written_failed_record [simp]: "\<not> written (failed_record fi e)"
  by (simp add: written_def failed_record_def)

lemma ok_record_fields [simp]:
  "filename (ok_record fi name path) = name"
  "original_path (ok_record fi name path) = zi_filename fi"
  "extracted_path (ok_record fi name path) = Some path"
  "error (ok_record fi name path) = None"
  "format (ok_record fi name path) = format_name name"
  by (simp_all add: ok_record_def)

lemma failed_record_fields [simp]:
  "filename (failed_record fi e) = zi_filename fi"
  "original_path (failed_record fi e) = zi_filename fi"
  "extracted_path (failed_record fi e) = None"
  "error (failed_record fi e) = Some e"
  "format (failed_record fi e) = ''unknown''"
  by (simp_all add: failed_record_def)

lemma members_inv_empty: "members_inv td [] []"
  by (simp add: members_inv_def)

lemma members_inv_mono:
  assumes "members_inv td created acc" "set created \<subseteq> set created'"
  shows "members_inv td created' acc"
  using assms path_exists_mono [OF _ assms(2)]
  unfolding members_inv_def by blast

lemma members_inv_snoc_unwritten:
  assumes inv: "members_inv td created acc" and r: "\<not> written r"
  shows "members_inv td created (acc @ [r])"
proof -
  have nth_r: "(acc @ [r]) ! j = (if j < length acc then acc ! j else r)"
    if "j < length (acc @ [r])" for j
    using that by (auto simp: nth_append less_Suc_eq)
  have part1: "filename x \<in> set created
        \<and> extracted_path x = Some (path_join td (filename x))
        \<and> CHR ''/'' \<notin> set (filename x)
        \<and> path_exists created (basename (original_path x))"
    if "x \<in> set (acc @ [r])" "written x" for x
  proof -
    from that have "x \<in> set acc" using r by auto
    with inv \<open>written x\<close> show "filename x \<in> set created
        \<and> extracted_path x = Some (path_join td (filename x))
        \<and> CHR ''/'' \<notin> set (filename x)
        \<and> path_exists created (basename (original_path x))"
      unfolding members_inv_def by blast
  qed
  have part2: "filename ((acc @ [r]) ! i) \<noteq> filename ((acc @ [r]) ! j)
        \<and> (basename (original_path ((acc @ [r]) ! i)) = basename (original_path ((acc @ [r]) ! j))
             \<longrightarrow> (\<exists>k\<ge>1. filename ((acc @ [r]) ! j) = suffixed (original_path ((acc @ [r]) ! j)) k))"
    if j: "j < length (acc @ [r])" and i: "i < j"
      and wi: "written ((acc @ [r]) ! i)" and wj: "written ((acc @ [r]) ! j)" for i j
  proof -
    from wj r nth_r [OF j] have jlt: "j < length acc"
      by (cases "j < length acc") simp_all
    with i have ilt: "i < length acc" by simp
    have eqs: "(acc @ [r]) ! i = acc ! i" "(acc @ [r]) ! j = acc ! j"
      using ilt jlt by (simp_all add: nth_append)
    from inv jlt i wi wj show ?thesis
      unfolding members_inv_def eqs by blast
  qed
  show ?thesis
    unfolding members_inv_def using part1 part2 by blast
qed

lemma members_inv_snoc_written:
  assumes inv: "members_inv td created acc"
    and w: "written r"
    and free: "\<not> path_exists created (filename r)"
    and path: "extracted_path r = Some (path_join td (filename r))"
    and slash: "CHR ''/'' \<notin> set (filename r)"
    and name: "filename r = basename (original_path r)
               \<or> (path_exists created (basename (original_path r))
                   \<and> (\<exists>k\<ge>1. filename r = suffixed (original_path r) k))"
  shows "members_inv td (created @ [filename r]) (acc @ [r])"
proof -
  let ?c = "created @ [filename r]"
  have sub: "set created \<subseteq> set ?c" by auto
  have inv': "members_inv td ?c acc"
    by (rule members_inv_mono [OF inv sub])
  have notin: "filename r \<notin> set created"
    using free path_exists_member by blast
  have base_r: "path_exists ?c (basename (original_path r))"
  proof (rule disjE [OF name])
    assume "filename r = basename (original_path r)"
    then have "basename (original_path r) \<in> set ?c" by simp
    then show ?thesis by (rule path_exists_member)
  next
    assume "path_exists created (basename (original_path r))
            \<and> (\<exists>k\<ge>1. filename r = suffixed (original_path r) k)"
    then show ?thesis using path_exists_mono [OF _ sub] by blast
  qed
  have part1: "filename x \<in> set ?c
        \<and> extracted_path x = Some (path_join td (filename x))
        \<and> CHR ''/'' \<notin> set (filename x)
        \<and> path_exists ?c (basename (original_path x))"
    if x: "x \<in> set (acc @ [r])" and wx: "written x" for x
    proof (cases "x = r")
      case True
      then show ?thesis using path slash base_r by simp
    next
      case False
      with x have "x \<in> set acc" by simp
      with inv' wx show ?thesis unfolding members_inv_def by blast
    qed
  have part2: "filename ((acc @ [r]) ! i) \<noteq> filename ((acc @ [r]) ! j)
        \<and> (basename (original_path ((acc @ [r]) ! i)) = basename (original_path ((acc @ [r]) ! j))
             \<longrightarrow> (\<exists>k\<ge>1. filename ((acc @ [r]) ! j) = suffixed (original_path ((acc @ [r]) ! j)) k))"
    if j: "j < length (acc @ [r])" and i: "i < j"
      and wi: "written ((acc @ [r]) ! i)" and wj: "written ((acc @ [r]) ! j)" for i j
    proof (cases "j < length acc")
      case True
      with i have ilt: "i < length acc" by simp
      have eqs: "(acc @ [r]) ! i = acc ! i" "(acc @ [r]) ! j = acc ! j"
        using ilt True by (simp_all add: nth_append)
      from inv True i wi wj show ?thesis
        unfolding members_inv_def eqs by blast
    next
      case False
      with j have jeq: "j = length acc" by simp
      with i have ilt: "i < length acc" by simp
      have eqs: "(acc @ [r]) ! i = acc ! i" "(acc @ [r]) ! j = r"
        using ilt jeq by (simp_all add: nth_append)
      have mem: "acc ! i \<in> set acc" using ilt by simp
      have wi': "written (acc ! i)" using wi eqs by simp
      from inv mem wi' have old: "filename (acc ! i) \<in> set created"
        "path_exists created (basename (original_path (acc ! i)))"
        unfolding members_inv_def by blast+
      have differ: "filename (acc ! i) \<noteq> filename r"
        using old(1) notin by auto
      have suffix: "\<exists>k\<ge>1. filename r = suffixed (original_path r) k"
        if same: "basename (original_path (acc ! i)) = basename (original_path r)"
      proof (rule disjE [OF name])
        assume "filename r = basename (original_path r)"
        with old(2) same free show ?thesis by simp
      next
        assume "path_exists created (basename (original_path r))
            \<and> (\<exists>k\<ge>1. filename r = suffixed (original_path r) k)"
        then show ?thesis by (rule conjunct2)
      qed
      show ?thesis unfolding eqs using differ suffix by blast
    qed
  show ?thesis
    unfolding members_inv_def using part1 part2 by blast
qed

lemma extract_entry_result:
  obtains name where
    "\<not> path_exists created name"
    "name = basename (zi_filename fi)
       \<or> (path_exists created (basename (zi_filename fi))
           \<and> (\<exists>k\<ge>1. name = suffixed (zi_filename fi) k))"
    "CHR ''/'' \<notin> set name"
    "extract_entry env td pw created fi =
       Some (case zip_copy env fi (pwd_of pw) name of
               Copied \<Rightarrow> (created @ [name], ok_record fi name (path_join td name))
             | Open_failed e \<Rightarrow> (created, failed_record fi e)
             | Copy_failed e \<Rightarrow> (created @ [name], failed_record fi e))"
proof -
  from unique_name_entry [of created "zi_filename fi"]
  obtain name where n:
    "unique_name created (fst (splitext (basename (zi_filename fi))))
        (snd (splitext (basename (zi_filename fi)))) 1 (basename (zi_filename fi)) = Some name"
    "\<not> path_exists created name"
    "name = basename (zi_filename fi)
       \<or> (path_exists created (basename (zi_filename fi))
           \<and> (\<exists>k\<ge>1. name = suffixed (zi_filename fi) k))"
    "CHR ''/'' \<notin> set name"
    by (elim exE conjE)
  have "extract_entry env td pw created fi =
       Some (case zip_copy env fi (pwd_of pw) name of
               Copied \<Rightarrow> (created @ [name], ok_record fi name (path_join td name))
             | Open_failed e \<Rightarrow> (created, failed_record fi e)
             | Copy_failed e \<Rightarrow> (created @ [name], failed_record fi e))"
    unfolding extract_entry_def Let_def split_beta n(1)
    by (simp split: copy_outcome.split)
  with n(2,3,4) show thesis by (rule that)
qed

lemma extract_entry_inv:
  assumes inv: "members_inv td created acc"
  shows "\<exists>created' r. extract_entry env td pw created fi = Some (created', r)
           \<and> members_inv td created' (acc @ [r])"
proof -
  obtain name where n:
    "\<not> path_exists created name"
    "name = basename (zi_filename fi)
       \<or> (path_exists created (basename (zi_filename fi))
           \<and> (\<exists>k\<ge>1. name = suffixed (zi_filename fi) k))"
    "CHR ''/'' \<notin> set name"
    "extract_entry env td pw created fi =
       Some (case zip_copy env fi (pwd_of pw) name of
               Copied \<Rightarrow> (created @ [name], ok_record fi name (path_join td name))
             | Open_failed e \<Rightarrow> (created, failed_record fi e)
             | Copy_failed e \<Rightarrow> (created @ [name], failed_record fi e))"
    by (rule extract_entry_result)
  show ?thesis
  proof (cases "zip_copy env fi (pwd_of pw) name")
    case Copied
    have "members_inv td (created @ [filename (ok_record fi name (path_join td name))])
            (acc @ [ok_record fi name (path_join td name)])"
      by (rule members_inv_snoc_written [OF inv]) (use n in simp_all)
    then show ?thesis using n(4) Copied by simp
  next
    case (Open_failed e)
    have "members_inv td created (acc @ [failed_record fi e])"
      by (rule members_inv_snoc_unwritten [OF inv]) simp
    then show ?thesis using n(4) Open_failed by simp
  next
    case (Copy_failed e)
    have "members_inv td (created @ [name]) acc"
      by (rule members_inv_mono [OF inv]) auto
    then have "members_inv td (created @ [name]) (acc @ [failed_record fi e])"
      by (rule members_inv_snoc_unwritten) simp
    then show ?thesis using n(4) Copy_failed by simp
  qed
qed

lemma extract_entries_inv:
  "members_inv td created acc \<Longrightarrow>
   \<exists>created' recs. extract_entries env td pw es created acc = Some (created', acc @ recs)
      \<and> members_inv td created' (acc @ recs)
      \<and> length recs = length (filter (\<lambda>f. \<not> is_dir f) es)"
proof (induction es arbitrary: created acc)
  case Nil
  then show ?case by simp
next
  case (Cons fi es)
  show ?case
  proof (cases "is_dir fi")
    case True
    with Cons.IH [OF Cons.prems] show ?thesis by simp
  next
    case False
    from extract_entry_inv [OF Cons.prems, of env pw fi]
    obtain created1 r where step: "extract_entry env td pw created fi = Some (created1, r)"
      "members_inv td created1 (acc @ [r])"
      by (elim exE conjE)
    from Cons.IH [OF step(2)]
    obtain created' recs where rest:
      "extract_entries env td pw es created1 (acc @ [r]) = Some (created', (acc @ [r]) @ recs)"
      "members_inv td created' ((acc @ [r]) @ recs)"
      "length recs = length (filter (\<lambda>f. \<not> is_dir f) es)"
      by (elim exE conjE)
    have "extract_entries env td pw (fi # es) created acc = Some (created', acc @ (r # recs))"
      using False step(1) rest(1) by simp
    moreover have "members_inv td created' (acc @ (r # recs))"
      using rest(2) by simp
    moreover have "length (r # recs) = length (filter (\<lambda>f. \<not> is_dir f) (fi # es))"
      using False rest(3) by simp
    ultimately show ?thesis by blast
  qed
qed

lemma count_split:
  "length (filter (\<lambda>f. \<not> P f) xs) + length (filter P xs) = length xs"
  by (induction xs) auto

lemma extract_entry_member:
  assumes "extract_entry env td pw created fi = Some (created', r)"
  shows "member_of env td pw fi r"
proof -
  obtain name where n:
    "extract_entry env td pw created fi =
       Some (case zip_copy env fi (pwd_of pw) name of
               Copied \<Rightarrow> (created @ [name], ok_record fi name (path_join td name))
             | Open_failed e \<Rightarrow> (created, failed_record fi e)
             | Copy_failed e \<Rightarrow> (created @ [name], failed_record fi e))"
    by (rule extract_entry_result)
  have "r = (case zip_copy env fi (pwd_of pw) name of
               Copied \<Rightarrow> ok_record fi name (path_join td name)
             | Open_failed e \<Rightarrow> failed_record fi e
             | Copy_failed e \<Rightarrow> failed_record fi e)"
    using assms n by (cases "zip_copy env fi (pwd_of pw) name") simp_all
  then show ?thesis unfolding member_of_def by (rule exI)
qed

lemma extract_entries_members:
  "extract_entries env td pw es created acc = Some (created', out) \<Longrightarrow>
   \<exists>recs. out = acc @ recs
     \<and> list_all2 (member_of env td pw) (filter (\<lambda>f. \<not> is_dir f) es) recs"
proof (induction es arbitrary: created acc)
  case Nil
  then show ?case by simp
next
  case (Cons fi es)
  show ?case
  proof (cases "is_dir fi")
    case True
    with Cons.prems have "extract_entries env td pw es created acc = Some (created', out)"
      by simp
    from Cons.IH [OF this] True show ?thesis by simp
  next
    case False
    from Cons.prems False
    obtain created1 r where step: "extract_entry env td pw created fi = Some (created1, r)"
      and rest: "extract_entries env td pw es created1 (acc @ [r]) = Some (created', out)"
      by (auto split: option.splits)
    from Cons.IH [OF rest]
    obtain recs where recs: "out = (acc @ [r]) @ recs"
      "list_all2 (member_of env td pw) (filter (\<lambda>f. \<not> is_dir f) es) recs"
      by (elim exE conjE)
    have "out = acc @ (r # recs)" using recs(1) by simp
    moreover have "list_all2 (member_of env td pw) (filter (\<lambda>f. \<not> is_dir f) (fi # es)) (r # recs)"
      using False recs(2) extract_entry_member [OF step] by simp
    ultimately show ?thesis by blast
  qed
qed

lemma extract_archive_safe_ok:
  assumes tmp: "mkdtemp env = Inr td" and zip: "infolist env ap = Inr file_list"
  obtains created fs where
    "extract_archive_safe env ap pw =
       Some (Extract_ok (length (filter (\<lambda>f. \<not> is_dir f) file_list))
               (length (filter (\<lambda>f. \<not> truthy (error f)) fs))
               (length (filter (\<lambda>f. truthy (error f)) fs)) fs td)"
    "members_inv td created fs"
    "list_all2 (member_of env td pw) (filter (\<lambda>f. \<not> is_dir f) file_list) fs"
proof -
  from extract_entries_inv [OF members_inv_empty, where td = td and env = env and pw = pw
      and es = file_list]
  obtain created fs where e: "extract_entries env td pw file_list [] [] = Some (created, fs)"
    "members_inv td created fs"
    by auto
  from extract_entries_members [OF e(1)]
  have m: "list_all2 (member_of env td pw) (filter (\<lambda>f. \<not> is_dir f) file_list) fs"
    by simp
  have "extract_archive_safe env ap pw =
       Some (Extract_ok (length (filter (\<lambda>f. \<not> is_dir f) file_list))
               (length (filter (\<lambda>f. \<not> truthy (error f)) fs))
               (length (filter (\<lambda>f. truthy (error f)) fs)) fs td)"
    by (simp add: extract_archive_safe_def tmp zip e(1))
  then show thesis using e(2) m by (rule that)
qed



lemma filter_count_le:
  "list_all2 R xs ys \<Longrightarrow> (\<And>x y. R x y \<Longrightarrow> P x \<Longrightarrow> Q y) \<Longrightarrow>
   length (filter P xs) \<le> length (filter Q ys)"
  by (induction rule: list_all2_induct) auto

lemma encrypted_message_nonempty: "encrypted_message fi \<noteq> []"
  by (simp add: encrypted_message_def)

lemma member_of_encrypted:
  assumes "member_of env td pw fi r" "encrypted fi" "pwd_of pw = None"
  shows "r = failed_record fi (encrypted_message fi)"
  using assms unfolding member_of_def zip_copy_def by auto

lemma member_of_copied:
  assumes "member_of env td pw fi r" "\<not> encrypted fi"
    "\<And>name. copy_entry env fi (pwd_of pw) name = Copied"
  shows "written r \<and> extracted_path r \<noteq> None \<and> original_path r = zi_filename fi"
  using assms unfolding member_of_def zip_copy_def by auto

lemma member_of_original_path:
  "member_of env td pw fi r \<Longrightarrow> original_path r = zi_filename fi"
proof -
  assume "member_of env td pw fi r"
  then obtain name where "r = (case zip_copy env fi (pwd_of pw) name of
                     Copied \<Rightarrow> ok_record fi name (path_join td name)
                   | Open_failed e \<Rightarrow> failed_record fi e
                   | Copy_failed e \<Rightarrow> failed_record fi e)"
    unfolding member_of_def ..
  then show ?thesis
    by (cases "zip_copy env fi (pwd_of pw) name") simp_all
qed

section \<open>Extraction counts\<close>

text \<open>
  Claim C4: for an archive that opens (the temporary directory is made and the entry list is
  read), extraction returns, with \<open>success\<close> true, exactly one member record for each of
  the \<open>N\<close> entries that are no directories, \<open>total_files = N\<close>, and
  \<open>extracted_files + failed_files = N\<close>.
\<close>

theorem extract_counts:
  assumes "mkdtemp env = Inr td" and "infolist env apath = Inr file_list"
  shows "\<exists>r. extract_archive_safe env apath pw = Some r
           \<and> success r
           \<and> length (r_files r) = length (filter (\<lambda>f. \<not> is_dir f) file_list)
           \<and> r_total_files r = length (filter (\<lambda>f. \<not> is_dir f) file_list)
           \<and> r_extracted_files r + r_failed_files r
               = length (filter (\<lambda>f. \<not> is_dir f) file_list)"
proof -
  obtain created fs where r:
    "extract_archive_safe env apath pw =
       Some (Extract_ok (length (filter (\<lambda>f. \<not> is_dir f) file_list))
               (length (filter (\<lambda>f. \<not> truthy (error f)) fs))
               (length (filter (\<lambda>f. truthy (error f)) fs)) fs td)"
    "list_all2 (member_of env td pw) (filter (\<lambda>f. \<not> is_dir f) file_list) fs"
    using extract_archive_safe_ok [OF assms, of pw] by blast
  have len: "length fs = length (filter (\<lambda>f. \<not> is_dir f) file_list)"
    using list_all2_lengthD [OF r(2)] by simp
  show ?thesis
    using r(1) len count_split [of "\<lambda>f. truthy (error f)" fs]
    by (simp add: success_def)
qed

theorem extract_counts_witness:
  "mkdtemp docs_env = Inr ''/tmp/archive_extract_1''
   \<and> infolist docs_env ''uploads/docs.zip'' = Inr docs_entries
   \<and> (\<exists>r. extract_archive_safe docs_env ''uploads/docs.zip'' None = Some r
           \<and> success r \<and> length (r_files r) = 3 \<and> r_total_files r = 3
           \<and> r_extracted_files r + r_failed_files r = 3)"
proof -
  have h1: "mkdtemp docs_env = Inr ''/tmp/archive_extract_1''"
    by (simp add: docs_env_def)
  have h2: "infolist docs_env ''uploads/docs.zip'' = Inr docs_entries"
    by (simp add: docs_env_def)
  have n: "length (filter (\<lambda>f. \<not> is_dir f) docs_entries) = 3"
    by (simp add: docs_entries_def is_dir_def)
  show ?thesis
    using extract_counts [OF h1 h2, of None] h1 h2 unfolding n by simp
qed

section \<open>Name collisions\<close>




section \<open>Password-protected entries and empty passwords\<close>

lemma list_all2_nth_rel:
  "list_all2 R xs ys \<Longrightarrow> i < length xs \<Longrightarrow> R (xs ! i) (ys ! i)"
  by (rule list_all2_nthD)

lemma extract_batch_extracted:
  assumes reg: "reg bid = Some b" and st: "status b = ''uploaded''"
    and res: "extract_archive_safe env (archive_path b) (password_or_none (password b))
                = Some (Extract_ok t x f fs td)"
  shows "extract_batch env now reg bid =
           Some (200, reg(bid \<mapsto> b\<lparr> status := ''extracted'', total_files := t,
                                     extracted_files := x, failed_files := f, files := fs,
                                     temp_dir := Some td, extracted_at := Some now \<rparr>))"
  using reg st res by (simp add: extract_batch_def Let_def)

text \<open>
  Claim C6: a batch uploaded without a password whose archive opens. Extraction answers
  200 and leaves the batch \<open>extracted\<close>, not \<open>extract_failed\<close>, with one member per
  entry that is no directory, in entry order. The member of every entry whose encryption
  flag is set has an error (a non-empty message) and no extracted path; the member of
  every other entry whose copy succeeds has no error and a path; and the count
  \<open>extracted_files\<close> leaves the encrypted entries out.
\<close>

theorem encrypted_entry_fails_alone:
  assumes "reg bid = Some b" and "status b = ''uploaded''" and "password b = []"
    and "mkdtemp env = Inr td" and "infolist env (archive_path b) = Inr file_list"
    and "nd = filter (\<lambda>f. \<not> is_dir f) file_list"
  shows "\<exists>reg' b'. extract_batch env now reg bid = Some (200, reg')
           \<and> reg' bid = Some b'
           \<and> status b' = ''extracted'' \<and> status b' \<noteq> ''extract_failed''
           \<and> length (files b') = length nd
           \<and> (\<forall>i < length nd. encrypted (nd ! i) \<longrightarrow>
                  error (files b' ! i) \<noteq> None \<and> truthy (error (files b' ! i))
                  \<and> extracted_path (files b' ! i) = None
                  \<and> original_path (files b' ! i) = zi_filename (nd ! i))
           \<and> (\<forall>i < length nd. \<not> encrypted (nd ! i) \<longrightarrow>
                  (\<forall>name. copy_entry env (nd ! i) None name = Copied) \<longrightarrow>
                  error (files b' ! i) = None \<and> extracted_path (files b' ! i) \<noteq> None
                  \<and> original_path (files b' ! i) = zi_filename (nd ! i))
           \<and> extracted_files b' = length (filter (\<lambda>f. \<not> truthy (error f)) (files b'))
           \<and> extracted_files b' + length (filter encrypted nd) \<le> length nd"
proof -
  have pw: "password_or_none (password b) = None"
    using assms(3) by (simp add: password_or_none_def)
  have pwd: "pwd_of None = None"
    by (simp add: pwd_of_def truthy_def)
  obtain created fs where r:
    "extract_archive_safe env (archive_path b) None =
       Some (Extract_ok (length nd)
               (length (filter (\<lambda>f. \<not> truthy (error f)) fs))
               (length (filter (\<lambda>f. truthy (error f)) fs)) fs td)"
    "list_all2 (member_of env td None) nd fs"
    using extract_archive_safe_ok [OF assms(4,5), of None] unfolding assms(6) by blast
  define b' where "b' = b\<lparr> status := ''extracted'', total_files := length nd,
      extracted_files := length (filter (\<lambda>f. \<not> truthy (error f)) fs),
      failed_files := length (filter (\<lambda>f. truthy (error f)) fs), files := fs,
      temp_dir := Some td, extracted_at := Some now \<rparr>"
  have run: "extract_batch env now reg bid = Some (200, reg(bid \<mapsto> b'))"
    unfolding b'_def using r(1) pw
    by (intro extract_batch_extracted [where reg = reg and bid = bid and b = b]
          assms(1) assms(2)) simp
  have len: "length fs = length nd"
    using list_all2_lengthD [OF r(2)] by simp
  have enc: "error (fs ! i) \<noteq> None \<and> truthy (error (fs ! i))
                  \<and> extracted_path (fs ! i) = None
                  \<and> original_path (fs ! i) = zi_filename (nd ! i)"
    if "i < length nd" "encrypted (nd ! i)" for i
  proof -
    have "member_of env td None (nd ! i) (fs ! i)"
      using list_all2_nthD [OF r(2) that(1)] .
    from member_of_encrypted [OF this that(2) pwd]
    show ?thesis by (simp add: truthy_def encrypted_message_nonempty)
  qed
  have plain: "error (fs ! i) = None \<and> extracted_path (fs ! i) \<noteq> None
                  \<and> original_path (fs ! i) = zi_filename (nd ! i)"
    if "i < length nd" "\<not> encrypted (nd ! i)"
      "\<forall>name. copy_entry env (nd ! i) None name = Copied" for i
  proof -
    have "member_of env td None (nd ! i) (fs ! i)"
      using list_all2_nthD [OF r(2) that(1)] .
    from member_of_copied [OF this that(2)] that(3) pwd
    show ?thesis by (simp add: written_def)
  qed
  have "length (filter encrypted nd) \<le> length (filter (\<lambda>f. truthy (error f)) fs)"
  proof (rule filter_count_le [OF r(2)])
    fix fi r assume "member_of env td None fi r" "encrypted fi"
    from member_of_encrypted [OF this pwd]
    show "truthy (error r)" by (simp add: truthy_def encrypted_message_nonempty)
  qed
  then have cnt: "length (filter (\<lambda>f. \<not> truthy (error f)) fs) + length (filter encrypted nd)
      \<le> length nd"
    using count_split [of "\<lambda>f. truthy (error f)" fs] len by simp
  have st': "status b' = ''extracted''" "status b' \<noteq> ''extract_failed''"
    "files b' = fs" "extracted_files b' = length (filter (\<lambda>f. \<not> truthy (error f)) fs)"
    by (simp_all add: b'_def)
  show ?thesis
  proof (intro exI conjI)
    show "extract_batch env now reg bid = Some (200, reg(bid \<mapsto> b'))" by (rule run)
    show "(reg(bid \<mapsto> b')) bid = Some b'" by simp
    show "status b' = ''extracted''" "status b' \<noteq> ''extract_failed''" by (rule st')+
    show "length (files b') = length nd" using len st'(3) by simp
    show "\<forall>i<length nd. encrypted (nd ! i) \<longrightarrow>
            error (files b' ! i) \<noteq> None \<and> truthy (error (files b' ! i))
            \<and> extracted_path (files b' ! i) = None
            \<and> original_path (files b' ! i) = zi_filename (nd ! i)"
      unfolding st'(3) using enc by blast
    show "\<forall>i<length nd. \<not> encrypted (nd ! i) \<longrightarrow>
            (\<forall>name. copy_entry env (nd ! i) None name = Copied) \<longrightarrow>
            error (files b' ! i) = None \<and> extracted_path (files b' ! i) \<noteq> None
            \<and> original_path (files b' ! i) = zi_filename (nd ! i)"
      unfolding st'(3) using plain by blast
    show "extracted_files b' = length (filter (\<lambda>f. \<not> truthy (error f)) (files b'))"
      unfolding st'(3) by (rule st'(4))
    show "extracted_files b' + length (filter encrypted nd) \<le> length nd"
      unfolding st'(4) by (rule cnt)
  qed
qed

theorem encrypted_entry_fails_alone_witness:
  "(Map.empty(''b1'' \<mapsto> locked_batch)) ''b1'' = Some locked_batch
   \<and> status locked_batch = ''uploaded'' \<and> password locked_batch = []
   \<and> mkdtemp locked_env = Inr ''/tmp/archive_extract_2''
   \<and> infolist locked_env (archive_path locked_batch) = Inr locked_entries
   \<and> locked_entries = filter (\<lambda>f. \<not> is_dir f) locked_entries
   \<and> 0 < length locked_entries \<and> encrypted (locked_entries ! 0)
   \<and> 1 < length locked_entries \<and> \<not> encrypted (locked_entries ! 1)
   \<and> (\<forall>name. copy_entry locked_env (locked_entries ! 1) None name = Copied)
   \<and> (\<exists>reg' b'. extract_batch locked_env ''t1'' (Map.empty(''b1'' \<mapsto> locked_batch)) ''b1''
                     = Some (200, reg')
          \<and> reg' ''b1'' = Some b' \<and> status b' = ''extracted''
          \<and> error (files b' ! 0) \<noteq> None \<and> extracted_path (files b' ! 0) = None
          \<and> error (files b' ! 1) = None \<and> extracted_path (files b' ! 1) \<noteq> None
          \<and> extracted_files b' + length (filter encrypted locked_entries)
               \<le> length locked_entries)"
proof -
  have h1: "(Map.empty(''b1'' \<mapsto> locked_batch)) ''b1'' = Some locked_batch"
    by simp
  have h2: "status locked_batch = ''uploaded''" and h3: "password locked_batch = []"
    by (simp_all add: locked_batch_def)
  have h4: "mkdtemp locked_env = Inr ''/tmp/archive_extract_2''"
    and h5: "infolist locked_env (archive_path locked_batch) = Inr locked_entries"
    by (simp_all add: locked_env_def)
  have h6: "locked_entries = filter (\<lambda>f. \<not> is_dir f) locked_entries"
    by (simp add: locked_entries_def is_dir_def)
  have e0: "0 < length locked_entries" "encrypted (locked_entries ! 0)"
    and e1: "1 < length locked_entries" "\<not> encrypted (locked_entries ! 1)"
    by (simp_all add: locked_entries_def encrypted_def)
  have c1: "\<forall>name. copy_entry locked_env (locked_entries ! 1) None name = Copied"
    by (simp add: locked_env_def)
  from encrypted_entry_fails_alone [where reg = "Map.empty(''b1'' \<mapsto> locked_batch)"
      and bid = "''b1''" and now = "''t1''", OF h1 h2 h3 h4 h5 h6]
  obtain reg' b' where r:
    "extract_batch locked_env ''t1'' (Map.empty(''b1'' \<mapsto> locked_batch)) ''b1'' = Some (200, reg')"
    "reg' ''b1'' = Some b'" "status b' = ''extracted''"
    "\<forall>i < length locked_entries. encrypted (locked_entries ! i) \<longrightarrow>
        error (files b' ! i) \<noteq> None \<and> truthy (error (files b' ! i))
        \<and> extracted_path (files b' ! i) = None
        \<and> original_path (files b' ! i) = zi_filename (locked_entries ! i)"
    "\<forall>i < length locked_entries. \<not> encrypted (locked_entries ! i) \<longrightarrow>
        (\<forall>name. copy_entry locked_env (locked_entries ! i) None name = Copied) \<longrightarrow>
        error (files b' ! i) = None \<and> extracted_path (files b' ! i) \<noteq> None
        \<and> original_path (files b' ! i) = zi_filename (locked_entries ! i)"
    "extracted_files b' + length (filter encrypted locked_entries) \<le> length locked_entries"
    by (elim exE conjE)
  from r(4) e0 have m0: "error (files b' ! 0) \<noteq> None" "extracted_path (files b' ! 0) = None"
    by blast+
  from r(5) e1 c1 have m1: "error (files b' ! 1) = None" "extracted_path (files b' ! 1) \<noteq> None"
    by blast+
  have "\<exists>reg' b'. extract_batch locked_env ''t1'' (Map.empty(''b1'' \<mapsto> locked_batch)) ''b1''
                     = Some (200, reg')
          \<and> reg' ''b1'' = Some b' \<and> status b' = ''extracted''
          \<and> error (files b' ! 0) \<noteq> None \<and> extracted_path (files b' ! 0) = None
          \<and> error (files b' ! 1) = None \<and> extracted_path (files b' ! 1) \<noteq> None
          \<and> extracted_files b' + length (filter encrypted locked_entries)
               \<le> length locked_entries"
    using r(1) r(2) r(3) m0 m1 r(6) by (intro exI [of _ reg'] exI [of _ b']) simp
  then show ?thesis
    by (intro conjI h1 h2 h3 h4 h5 h6 e0 e1 c1)
qed







section \<open>Properties of the history recorder\<close>

lemma load_save_history:
  "load_history (save_history outcome history file)
     = (case outcome of Written \<Rightarrow> history | Not_opened \<Rightarrow> load_history file
        | Cut_short \<Rightarrow> [])"
  by (simp add: save_history_def load_history_def split: write_outcome.split)

lemma add_to_history_saved:
  "load_history (snd (add_to_history new_id now Written original_name file_format fsize md_path url file))
     = take 100 (fst (add_to_history new_id now Written original_name file_format fsize md_path url file)
                   # load_history file)"
  by (simp add: add_to_history_def Let_def load_save_history)

lemma add_to_history_record:
  "fst (add_to_history new_id now outcome original_name file_format fsize md_path url file)
     = \<lparr> h_id = new_id, h_original_name = original_name, h_format = file_format,
         h_file_size = fsize, h_md_file_path = md_path, h_download_url = url,
         h_converted_at = now, h_status = ''completed'' \<rparr>"
  by (simp add: add_to_history_def Let_def)

lemma add_to_history_length:
  "length (load_history file) \<le> 100 \<Longrightarrow>
   length (load_history (snd (add_to_history new_id now outcome original_name file_format
             fsize md_path url file))) \<le> 100"
  by (simp add: add_to_history_def Let_def load_save_history split: write_outcome.split)

lemma delete_history_item_length:
  "length (load_history file) \<le> 100 \<Longrightarrow>
   length (load_history (snd (delete_history_item outcome history_id file))) \<le> 100"
proof -
  assume a: "length (load_history file) \<le> 100"
  have "length (filter (\<lambda>item. h_id item \<noteq> history_id) (load_history file))
          \<le> length (load_history file)"
    by (rule length_filter_le)
  with a have "length (filter (\<lambda>item. h_id item \<noteq> history_id) (load_history file)) \<le> 100"
    by (rule le_trans [rotated])
  with a show ?thesis
    by (simp add: delete_history_item_def Let_def load_save_history split: write_outcome.split)
qed

text \<open>
  Claim C8: every operation on the history log keeps it at no more than 100 records,
  whatever the outcome of the write. \<open>add_to_history\<close> gives the new record the id and
  the time stamp it is handed, puts it in front, and, when the write succeeds, stores the
  first 100 records of the new list whatever the old length was: the records dropped are
  the last, oldest ones. An id that is not in the log keeps the ids of the log distinct.
\<close>

theorem history_cap:
  "(length (load_history file) \<le> 100 \<longrightarrow>
      length (load_history (snd (add_to_history new_id now outcome original_name file_format
                fsize md_path url file))) \<le> 100
    \<and> length (load_history (snd (clear_history outcome file))) \<le> 100
    \<and> length (load_history (snd (delete_history_item outcome history_id file))) \<le> 100)
   \<and> (let (record, file') = add_to_history new_id now Written original_name file_format
                                fsize md_path url file
      in h_id record = new_id \<and> h_converted_at record = now
       \<and> load_history file' = take 100 (record # load_history file)
       \<and> load_history file' = record # take 99 (load_history file)
       \<and> hd (load_history file') = record
       \<and> length (load_history file') \<le> 100
       \<and> (length (load_history file) = 100 \<longrightarrow>
             load_history file' = record # butlast (load_history file))
       \<and> (new_id \<notin> h_id ` set (load_history file) \<longrightarrow> distinct (map h_id (load_history file))
             \<longrightarrow> distinct (map h_id (load_history file'))))"
proof -
  define rcd where "rcd =
    fst (add_to_history new_id now Written original_name file_format fsize md_path url file)"
  define file' where "file' =
    snd (add_to_history new_id now Written original_name file_format fsize md_path url file)"
  have pair: "add_to_history new_id now Written original_name file_format fsize md_path url file
                = (rcd, file')"
    by (simp add: rcd_def file'_def)
  have rec: "h_id rcd = new_id" "h_converted_at rcd = now"
    unfolding rcd_def add_to_history_record by simp_all
  have ld: "load_history file' = take 100 (rcd # load_history file)"
    unfolding file'_def rcd_def by (rule add_to_history_saved)
  have ld2: "load_history file' = rcd # take 99 (load_history file)"
    unfolding ld by (simp add: take_Cons')
  have full: "load_history file' = rcd # butlast (load_history file)"
    if "length (load_history file) = 100"
    unfolding ld2 using that by (simp add: butlast_conv_take)
  have dist: "distinct (map h_id (load_history file'))"
    if "new_id \<notin> h_id ` set (load_history file)" "distinct (map h_id (load_history file))"
  proof -
    have "distinct (map h_id (take 99 (load_history file)))"
      using that(2) by (simp add: take_map [symmetric] distinct_take)
    moreover have "new_id \<notin> h_id ` set (take 99 (load_history file))"
      using that(1) set_take_subset [of 99 "load_history file"] by blast
    ultimately show ?thesis
      unfolding ld2 using rec(1) by simp
  qed
  have second: "h_id rcd = new_id \<and> h_converted_at rcd = now
       \<and> load_history file' = take 100 (rcd # load_history file)
       \<and> load_history file' = rcd # take 99 (load_history file)
       \<and> hd (load_history file') = rcd
       \<and> length (load_history file') \<le> 100
       \<and> (length (load_history file) = 100 \<longrightarrow>
             load_history file' = rcd # butlast (load_history file))
       \<and> (new_id \<notin> h_id ` set (load_history file) \<longrightarrow> distinct (map h_id (load_history file))
             \<longrightarrow> distinct (map h_id (load_history file')))"
    using rec ld ld2 full dist by simp
  have first: "length (load_history file) \<le> 100 \<longrightarrow>
      length (load_history (snd (add_to_history new_id now outcome original_name file_format
                fsize md_path url file))) \<le> 100
    \<and> length (load_history (snd (clear_history outcome file))) \<le> 100
    \<and> length (load_history (snd (delete_history_item outcome history_id file))) \<le> 100"
    by (simp add: add_to_history_length delete_history_item_length clear_history_def
          load_save_history split: write_outcome.split)
  show ?thesis
    unfolding pair Let_def prod.case using first second by blast
qed

theorem history_cap_witness:
  "length (load_history full_history) = 100
   \<and> ''id1'' \<notin> h_id ` set (load_history full_history)
   \<and> (let (record, file') = add_to_history ''id1'' ''t1'' Written ''new.pdf'' ''pdf''
                                7 ''downloads/new.md'' ''/download-md'' full_history
      in h_id record = ''id1''
       \<and> load_history file' = record # butlast (load_history full_history)
       \<and> length (load_history file') \<le> 100)
   \<and> length (load_history (snd (clear_history Written full_history))) \<le> 100
   \<and> length (load_history (snd (delete_history_item Written ''id0'' full_history))) \<le> 100"
proof -
  have h1: "length (load_history full_history) = 100"
    by (simp add: full_history_def load_history_def)
  have h2: "''id1'' \<notin> h_id ` set (load_history full_history)"
    by (simp add: full_history_def load_history_def old_record_def)
  from h1 have h3: "length (load_history full_history) \<le> 100" by simp
  show ?thesis
    using history_cap [of full_history "''id1''" "''t1''" Written "''new.pdf''" "''pdf''" 7
        "''downloads/new.md''" "''/download-md''" "''id0''"] h1 h2 h3
    by (simp add: split_beta butlast_conv_take)
qed

section \<open>Properties of the converter dispatch\<close>








section \<open>Properties of the conversion worker\<close>

lemma save_simps [simp]:
  "batch (save_batch_status w) = batch w"
  "saved (save_batch_status w) = saved w @ [batch w]"
  "dispatched (save_batch_status w) = dispatched w"
  "history_file (save_batch_status w) = history_file w"
  by (simp_all add: save_batch_status_def)

lemma upd_file_simps [simp]:
  "saved (upd_file g c w) = saved w"
  "dispatched (upd_file g c w) = dispatched w"
  "history_file (upd_file g c w) = history_file w"
  "conversion_progress (batch (upd_file g c w)) = conversion_progress (batch w)"
  "status (batch (upd_file g c w)) = status (batch w)"
  "files (batch (upd_file g c w)) = (files (batch w))[g := c (files (batch w) ! g)]"
  by (simp_all add: upd_file_def)

lemma set_progress_simps [simp]:
  "saved (set_progress q w) = saved w"
  "dispatched (set_progress q w) = dispatched w"
  "history_file (set_progress q w) = history_file w"
  "conversion_progress (batch (set_progress q w)) = Some q"
  "status (batch (set_progress q w)) = status (batch w)"
  "files (batch (set_progress q w)) = files (batch w)"
  by (simp_all add: set_progress_def)


lemma names_simps [simp]:
  "names (save_batch_status w) = names w"
  "names (set_progress q w) = names w"
  "names (w\<lparr>dispatched := d\<rparr>) = names w"
  "names (w\<lparr>history_file := h\<rparr>) = names w"
  by (simp_all add: names_def)




















lemma triggered_simps [simp]:
  "conversion_progress (triggered now b data_files) =
     Some \<lparr> total = int (length (selected_files b data_files)), completed = 0,
            failed = 0, processing = 0 \<rparr>"
  "files (triggered now b data_files) = files b"
  "status (triggered now b data_files) = ''converting''"
  by (simp_all add: triggered_def)









section \<open>The progress counters\<close>




section \<open>The terminal status of the worker\<close>



section \<open>Members of an unsupported format\<close>



end
